theory Spec2Isabelle
  imports Complex_Main "HOL-Library.Sublist"
begin

section \<open>JavaScript values\<close>

text \<open>
  A JavaScript number is \<open>NaN\<close>, an infinity or a finite value. Finite values are kept as
  exact rationals: the rounding of a decimal literal to binary64 is not modelled, and
  \<open>+0\<close> and \<open>-0\<close> are one value (\<open>===\<close> and \<open>Array.prototype.includes\<close> do not tell them
  apart either).
\<close>

datatype jsnum = NaN | PosInf | NegInf | Fin rat

text \<open>
  The primitives a row can hold. Strings are sequences of code units in the range
  \<open>0..255\<close>. \<open>Undefined\<close> is also what reading a missing property gives.
\<close>

datatype prim = Undefined | Null | Bool bool | Num jsnum | Str string

text \<open>What a predicate function is called with: the row's value, or a \<open>Date\<close> built from it.\<close>

datatype fnarg = Plain prim | DateArg jsnum

text \<open>
  The values a condition can be built from.
  \<^item> \<open>DateObj t\<close> is a \<open>Date\<close> whose time value (\<open>getTime()\<close>) is \<open>t\<close>; \<open>NaN\<close> for an invalid date.
  \<^item> \<open>RegExp t\<close> is a regular expression without the \<open>g\<close> and \<open>y\<close> flags, given by what
    \<open>test\<close> answers on a row value (\<open>test\<close> converts its argument to a string first).
  \<^item> \<open>Function f\<close> is a function of one argument, given by the truthiness of what it
    returns; \<open>None\<close> when the call throws.
  \<^item> \<open>Array xs\<close> is an array without holes.
  \<^item> \<open>Object kvs\<close> is a plain object: its own enumerable properties in the order \<open>for-in\<close>
    and \<open>Object.keys\<close> list them, each key once. Its prototype is an unmodified
    \<open>Object.prototype\<close>, and no key names one of that prototype's members.
\<close>

datatype jsval =
    Prim prim
  | DateObj jsnum
  | RegExp "prim \<Rightarrow> bool"
  | Function "fnarg \<Rightarrow> bool option"
  | Array "jsval list"
  | Object "(string \<times> jsval) list"

text \<open>
  What a call can throw: the \<open>TypeError\<close> of the \<open>in\<close> operator applied to a primitive,
  whatever a predicate function of the caller throws, and the \<open>Error\<close> of \<open>getTable\<close>.
\<close>

datatype error = TypeError | Thrown | Error string

text \<open>
  A row is the map from its own properties to the primitives they hold. \<open>row[k]\<close> and
  \<open>row.rowID\<close> read it, and give \<open>undefined\<close> for a key the row lacks: as for the
  objects of a condition, no key read from a row names a member of \<open>Object.prototype\<close>.
  Symbols and BigInts are not part of the model.
\<close>

type_synonym row = "string \<rightharpoonup> prim"

definition row_get :: "row \<Rightarrow> string \<Rightarrow> prim" where
  "row_get r k = (case r k of None \<Rightarrow> Undefined | Some v \<Rightarrow> v)"

subsection \<open>Truthiness, keys and property reads\<close>

fun truthy :: "jsval \<Rightarrow> bool" where
  "truthy (Prim Undefined) = False"
| "truthy (Prim Null) = False"
| "truthy (Prim (Bool b)) = b"
| "truthy (Prim (Num n)) = (n \<noteq> NaN \<and> n \<noteq> Fin 0)"
| "truthy (Prim (Str s)) = (s \<noteq> [])"
| "truthy _ = True"

definition digit_char :: "nat \<Rightarrow> char" where
  "digit_char d = char_of (48 + d)"

fun show_nat :: "nat \<Rightarrow> string" where
  "show_nat n = (if n < 10 then [digit_char n] else show_nat (n div 10) @ [digit_char (n mod 10)])"

declare show_nat.simps [simp del]

text \<open>
  The own enumerable properties of a value, in the order of \<open>Object.keys\<close> and \<open>for-in\<close>:
  the indices of a string or an array, the properties of a plain object, none for the other
  values.
\<close>

fun entries :: "jsval \<Rightarrow> (string \<times> jsval) list" where
  "entries (Prim (Str s)) = map (\<lambda>i. (show_nat i, Prim (Str [s ! i]))) [0..<length s]"
| "entries (Array xs) = map (\<lambda>i. (show_nat i, xs ! i)) [0..<length xs]"
| "entries (Object kvs) = kvs"
| "entries _ = []"

definition own_keys :: "jsval \<Rightarrow> string list" where
  "own_keys v = map fst (entries v)"

text \<open>\<open>"rowID" in v\<close>: a \<open>TypeError\<close> on a primitive.\<close>

fun has_rowID :: "jsval \<Rightarrow> error + bool" where
  "has_rowID (Prim p) = Inl TypeError"
| "has_rowID (Object kvs) = Inr (''rowID'' \<in> set (map fst kvs))"
| "has_rowID _ = Inr False"

text \<open>\<open>v.rowID\<close>, read where \<open>"rowID" in v\<close> holds.\<close>

fun get_rowID :: "jsval \<Rightarrow> jsval" where
  "get_rowID (Object kvs) = (case map_of kvs ''rowID'' of None \<Rightarrow> Prim Undefined | Some v \<Rightarrow> v)"
| "get_rowID _ = Prim Undefined"

subsection \<open>Numbers from strings\<close>

text \<open>
  \<open>Number(s)\<close> and \<open>isNaN(s)\<close> on a string follow the \<open>StringNumericLiteral\<close> grammar: white
  space around the literal is dropped, the empty string is \<open>0\<close>, a literal is a signed
  decimal (with \<open>Infinity\<close>, a fraction and an exponent) or an unsigned binary, octal or
  hexadecimal integer, and everything else is \<open>NaN\<close>.
\<close>

definition is_ws :: "char \<Rightarrow> bool" where
  "is_ws c = ((of_char c :: nat) \<in> {9, 10, 11, 12, 13, 32, 160})"

definition trim :: "string \<Rightarrow> string" where
  "trim s = rev (dropWhile is_ws (rev (dropWhile is_ws s)))"

definition is_digit :: "char \<Rightarrow> bool" where
  "is_digit c = (48 \<le> (of_char c :: nat) \<and> (of_char c :: nat) \<le> 57)"

definition radix_digit :: "nat \<Rightarrow> char \<Rightarrow> nat option" where
  "radix_digit b c =
     (let n = (of_char c :: nat);
          d = (if 48 \<le> n \<and> n \<le> 57 then Some (n - 48)
               else if 97 \<le> n \<and> n \<le> 102 then Some (n - 87)
               else if 65 \<le> n \<and> n \<le> 70 then Some (n - 55)
               else None)
      in case d of None \<Rightarrow> None | Some v \<Rightarrow> if v < b then Some v else None)"

fun radix_value :: "nat \<Rightarrow> string \<Rightarrow> nat \<Rightarrow> nat option" where
  "radix_value b [] acc = Some acc"
| "radix_value b (c # cs) acc =
     (case radix_digit b c of None \<Rightarrow> None | Some d \<Rightarrow> radix_value b cs (acc * b + d))"

definition radix_literal :: "nat \<Rightarrow> string \<Rightarrow> jsnum" where
  "radix_literal b ds =
     (if ds = [] then NaN
      else case radix_value b ds 0 of None \<Rightarrow> NaN | Some n \<Rightarrow> Fin (of_nat n))"

definition dec_value :: "string \<Rightarrow> nat" where
  "dec_value ds = foldl (\<lambda>acc c. acc * 10 + ((of_char c :: nat) - 48)) 0 ds"

definition digits_opt :: "string \<Rightarrow> nat option" where
  "digits_opt ds = (if ds \<noteq> [] \<and> list_all is_digit ds then Some (dec_value ds) else None)"

text \<open>The exponent part: absent, or \<open>e\<close> or \<open>E\<close> and a signed integer.\<close>

definition exponent_part :: "string \<Rightarrow> int option" where
  "exponent_part r =
     (case r of
        [] \<Rightarrow> Some 0
      | c # r' \<Rightarrow>
          if c = CHR ''e'' \<or> c = CHR ''E'' then
            (case r' of
               [] \<Rightarrow> None
             | s # ds \<Rightarrow>
                 if s = CHR ''+'' then map_option int (digits_opt ds)
                 else if s = CHR ''-'' then map_option (\<lambda>n. - int n) (digits_opt ds)
                 else map_option int (digits_opt r'))
          else None)"

definition scale10 :: "rat \<Rightarrow> int \<Rightarrow> rat" where
  "scale10 q e = (if 0 \<le> e then q * 10 ^ nat e else q / 10 ^ nat (- e))"

definition unsigned_decimal :: "string \<Rightarrow> jsnum" where
  "unsigned_decimal u =
     (if u = ''Infinity'' then PosInf
      else
        let ip = takeWhile is_digit u;
            r1 = dropWhile is_digit u;
            fp = (case r1 of [] \<Rightarrow> [] | c # r \<Rightarrow> if c = CHR ''.'' then takeWhile is_digit r else []);
            r2 = (case r1 of [] \<Rightarrow> [] | c # r \<Rightarrow> if c = CHR ''.'' then dropWhile is_digit r else r1)
        in if ip = [] \<and> fp = [] then NaN
           else case exponent_part r2 of
                  None \<Rightarrow> NaN
                | Some e \<Rightarrow>
                    Fin (scale10 (of_nat (dec_value ip) + of_nat (dec_value fp) / 10 ^ length fp) e))"

fun negate :: "jsnum \<Rightarrow> jsnum" where
  "negate NaN = NaN"
| "negate PosInf = NegInf"
| "negate NegInf = PosInf"
| "negate (Fin q) = Fin (- q)"

definition signed_decimal :: "string \<Rightarrow> jsnum" where
  "signed_decimal t =
     (case t of
        [] \<Rightarrow> NaN
      | c # u \<Rightarrow>
          if c = CHR ''+'' then unsigned_decimal u
          else if c = CHR ''-'' then negate (unsigned_decimal u)
          else unsigned_decimal t)"

definition str_to_num :: "string \<Rightarrow> jsnum" where
  "str_to_num s =
     (let t = trim s in
      if t = [] then Fin 0
      else case t of
             c0 # c1 # ds \<Rightarrow>
               if c0 = CHR ''0'' \<and> (c1 = CHR ''x'' \<or> c1 = CHR ''X'') then radix_literal 16 ds
               else if c0 = CHR ''0'' \<and> (c1 = CHR ''o'' \<or> c1 = CHR ''O'') then radix_literal 8 ds
               else if c0 = CHR ''0'' \<and> (c1 = CHR ''b'' \<or> c1 = CHR ''B'') then radix_literal 2 ds
               else signed_decimal t
           | _ \<Rightarrow> signed_decimal t)"

definition isNaN :: "jsnum \<Rightarrow> bool" where
  "isNaN n = (n = NaN)"

text \<open>
  \<open>Number(v)\<close>. A date gives its time value; a regular expression, a function and a plain
  object convert to strings that are no numeric literal. There is no equation for an
  array: \<open>_matchConditions\<close> tests \<open>Array.isArray\<close> before it converts.
\<close>

fun to_number :: "jsval \<Rightarrow> jsnum" where
  "to_number (Prim Undefined) = NaN"
| "to_number (Prim Null) = Fin 0"
| "to_number (Prim (Bool b)) = Fin (if b then 1 else 0)"
| "to_number (Prim (Num n)) = n"
| "to_number (Prim (Str s)) = str_to_num s"
| "to_number (DateObj t) = t"
| "to_number (RegExp t) = NaN"
| "to_number (Function f) = NaN"
| "to_number (Object kvs) = NaN"

subsection \<open>Dates from row values\<close>

definition time_clip :: "jsnum \<Rightarrow> jsnum" where
  "time_clip n =
     (case n of
        Fin q \<Rightarrow>
          if \<bar>q\<bar> > 8640000000000000 then NaN
          else Fin (of_int (if 0 \<le> q then \<lfloor>q\<rfloor> else \<lceil>q\<rceil>))
      | _ \<Rightarrow> NaN)"

text \<open>
  The time value of \<open>new Date(v)\<close>. A string goes through the host's date parser, which
  is a parameter of the model (\<open>Date.parse\<close>: the formats it accepts beyond the ISO ones are
  left to the implementation); \<open>NaN\<close> is the invalid date.
\<close>

fun new_Date :: "(string \<Rightarrow> jsnum) \<Rightarrow> prim \<Rightarrow> jsnum" where
  "new_Date dp (Str s) = time_clip (dp s)"
| "new_Date dp Undefined = NaN"
| "new_Date dp Null = Fin 0"
| "new_Date dp (Bool b) = Fin (if b then 1 else 0)"
| "new_Date dp (Num n) = time_clip n"

subsection \<open>The two date patterns\<close>

datatype tok = Digit | Lit char

text \<open>An anchored pattern \<open>^...$\<close> of \<open>\d\<close> and literal characters, tested on a string.\<close>

fun match_toks :: "tok list \<Rightarrow> string \<Rightarrow> bool" where
  "match_toks [] s = (s = [])"
| "match_toks (t # ts) [] = False"
| "match_toks (Digit # ts) (c # cs) = (is_digit c \<and> match_toks ts cs)"
| "match_toks (Lit d # ts) (c # cs) = (c = d \<and> match_toks ts cs)"

text \<open>\<open>/^\d{4}-\d{2}-\d{2}$/\<close>, the pattern of \<open>getTable\<close>.\<close>

definition iso_pattern :: "tok list" where
  "iso_pattern =
     replicate 4 Digit @ [Lit (CHR ''-'')] @ replicate 2 Digit @ [Lit (CHR ''-'')] @ replicate 2 Digit"

text \<open>\<open>/^\d{2}-\d{2}-\d{4}$/\<close>, the pattern of the function matcher.\<close>

definition dmy_pattern :: "tok list" where
  "dmy_pattern =
     replicate 2 Digit @ [Lit (CHR ''-'')] @ replicate 2 Digit @ [Lit (CHR ''-'')] @ replicate 4 Digit"

text \<open>
  \<open>/^\d{2}-\d{2}-\d{4}$/.test(v)\<close> on a row value. \<open>test\<close> converts its argument to a
  string: \<open>undefined\<close>, \<open>null\<close>, \<open>true\<close>, \<open>false\<close>, or the decimal form of a number, in which a
  \<open>-\<close> stands first or right after an \<open>e\<close>, never third. None of them has the pattern's
  form.
\<close>

fun test_dmy :: "prim \<Rightarrow> bool" where
  "test_dmy (Str s) = match_toks dmy_pattern s"
| "test_dmy _ = False"

section \<open>The condition matcher\<close>

subsection \<open>Equality\<close>

text \<open>\<open>a === b\<close> on two numbers (\<open>_compareValues\<close> is the same test): \<open>NaN\<close> equals nothing.\<close>

definition num_eq :: "jsnum \<Rightarrow> jsnum \<Rightarrow> bool" where
  "num_eq a b = (a \<noteq> NaN \<and> b \<noteq> NaN \<and> a = b)"

text \<open>
  \<open>rowVal === v\<close>. A row holds primitives, so it never holds the object \<open>v\<close> is when
  \<open>v\<close> is an object: the test is then false.
\<close>

fun strict_eq :: "prim \<Rightarrow> jsval \<Rightarrow> bool" where
  "strict_eq (Num a) (Prim (Num b)) = num_eq a b"
| "strict_eq x (Prim p) = (x = p)"
| "strict_eq x _ = False"

text \<open>
  \<open>L.includes(x)\<close> compares by \<open>SameValueZero\<close>: as \<open>===\<close>, but \<open>NaN\<close> is found in a list that
  holds \<open>NaN\<close>.
\<close>

definition array_includes :: "jsval list \<Rightarrow> prim \<Rightarrow> bool" where
  "array_includes L x = list_ex (\<lambda>v. case v of Prim p \<Rightarrow> p = x | _ \<Rightarrow> False) L"

subsection \<open>One field clause\<close>

text \<open>
  The last branch of the loop body: the matcher \<open>condVal\<close> of a column against the row's
  value \<open>rowVal\<close>, by the matcher's type. \<open>dp\<close> is the host's date parser.
\<close>

fun field_clause :: "(string \<Rightarrow> jsnum) \<Rightarrow> prim \<Rightarrow> jsval \<Rightarrow> error + bool" where
  "field_clause dp rowVal (RegExp t) = Inr (t rowVal)"
| "field_clause dp rowVal (Function f) =
     (let fnVal = (if test_dmy rowVal then DateArg (new_Date dp rowVal) else Plain rowVal)
      in case f fnVal of None \<Rightarrow> Inl Thrown | Some b \<Rightarrow> Inr b)"
| "field_clause dp rowVal (Array vs) =
     Inr (list_ex (\<lambda>v. case v of
                          DateObj t \<Rightarrow> num_eq (new_Date dp rowVal) t
                        | _ \<Rightarrow> strict_eq rowVal v) vs)"
| "field_clause dp rowVal (DateObj t) = Inr (num_eq (new_Date dp rowVal) t)"
| "field_clause dp rowVal condVal = Inr (strict_eq rowVal condVal)"

subsection \<open>Loops with an early return\<close>

text \<open>
  \<open>every_clause f xs\<close> is the loop \<open>for (x of xs) if (!f(x)) return false; return true\<close>,
  and \<open>some_clause f xs\<close> the loop \<open>for (x of xs) if (f(x)) return true; return false\<close>
  (the \<open>ok\<close> flag and the \<open>break\<close> of the \<open>OR\<close> branch). Both stop at the first error.
\<close>

primrec every_clause :: "('a \<Rightarrow> error + bool) \<Rightarrow> 'a list \<Rightarrow> error + bool" where
  "every_clause f [] = Inr True"
| "every_clause f (x # xs) =
     (case f x of Inl e \<Rightarrow> Inl e | Inr b \<Rightarrow> if b then every_clause f xs else Inr False)"

primrec some_clause :: "('a \<Rightarrow> error + bool) \<Rightarrow> 'a list \<Rightarrow> error + bool" where
  "some_clause f [] = Inr False"
| "some_clause f (x # xs) =
     (case f x of Inl e \<Rightarrow> Inl e | Inr b \<Rightarrow> if b then Inr True else some_clause f xs)"

lemma every_clause_cong [fundef_cong]:
  "xs = ys \<Longrightarrow> (\<And>x. x \<in> set ys \<Longrightarrow> f x = g x) \<Longrightarrow> every_clause f xs = every_clause g ys"
  by (induction ys arbitrary: xs) (auto split: sum.splits)

lemma some_clause_cong [fundef_cong]:
  "xs = ys \<Longrightarrow> (\<And>x. x \<in> set ys \<Longrightarrow> f x = g x) \<Longrightarrow> some_clause f xs = some_clause g ys"
  by (induction ys arbitrary: xs) (auto split: sum.splits)

text \<open>\<open>!r\<close> on the result of a call that may have thrown.\<close>

fun negated :: "error + bool \<Rightarrow> error + bool" where
  "negated (Inl e) = Inl e"
| "negated (Inr b) = Inr (\<not> b)"

subsection \<open>The size of a condition\<close>

text \<open>
  The measure under which \<open>_matchConditions\<close> terminates. An \<open>OR\<close> key counts one more than
  its value, since the \<open>OR\<close> branch calls the matcher on a new one-key object.
\<close>

fun csize :: "jsval \<Rightarrow> nat" where
  "csize (Array xs) = Suc (sum_list (map csize xs))"
| "csize (Object kvs) =
     Suc (sum_list (map (\<lambda>kv. csize (snd kv) + (if fst kv = ''OR'' then 1 else 0)) kvs))"
| "csize _ = 0"

text \<open>The keys of a string and of an array are digit strings, so none of them is \<open>AND\<close>, \<open>OR\<close> or \<open>NOT\<close>.\<close>

lemma show_nat_digits: "list_all is_digit (show_nat n)"
proof (induction n rule: show_nat.induct)
  case (1 n)
  have d: "is_digit (digit_char k)" if "k < 10" for k
    using that by (simp add: is_digit_def digit_char_def)
  show ?case
  proof (cases "n < 10")
    case True
    then show ?thesis by (simp add: show_nat.simps [of n] d)
  next
    case False
    then show ?thesis using 1 by (simp add: show_nat.simps [of n] d)
  qed
qed

lemma le_sum_list_map:
  fixes f :: "'a \<Rightarrow> nat"
  shows "x \<in> set xs \<Longrightarrow> f x \<le> sum_list (map f xs)"
  by (induction xs) auto

lemma entries_csize:
  assumes "kv \<in> set (entries c)"
  shows "csize (snd kv) + (if fst kv = ''OR'' then 1 else 0) \<le> csize c"
proof (cases c)
  case (Prim p)
  show ?thesis
  proof (cases p)
    case (Str s)
    with assms Prim obtain i where "kv = (show_nat i, Prim (Str [s ! i]))" by auto
    moreover have "show_nat i \<noteq> ''OR''"
      using show_nat_digits [of i] by (auto simp: is_digit_def)
    ultimately show ?thesis by simp
  qed (use assms Prim in auto)
next
  case (Array xs)
  with assms obtain i where i: "kv = (show_nat i, xs ! i)" "i < length xs" by auto
  have "show_nat i \<noteq> ''OR''"
    using show_nat_digits [of i] by (auto simp: is_digit_def)
  moreover have "csize (xs ! i) \<le> sum_list (map csize xs)"
    using i(2) by (simp add: le_sum_list_map)
  ultimately show ?thesis using i Array by simp
next
  case (Object kvs)
  with assms have "kv \<in> set kvs" by simp
  from le_sum_list_map [OF this, of "\<lambda>kv. csize (snd kv) + (if fst kv = ''OR'' then 1 else 0)"]
  show ?thesis using Object by simp
qed (use assms in auto)

lemma entries_csize_strict:
  assumes "kv \<in> set (entries c)" and "\<not> list_all is_digit (fst kv)"
  shows "csize (snd kv) + (if fst kv = ''OR'' then 1 else 0) < csize c"
proof (cases c)
  case (Prim p)
  then show ?thesis using assms show_nat_digits by (cases p) auto
next
  case (Array xs)
  then show ?thesis using assms show_nat_digits by auto
next
  case (Object kvs)
  with assms have "kv \<in> set kvs" by simp
  from le_sum_list_map [OF this, of "\<lambda>kv. csize (snd kv) + (if fst kv = ''OR'' then 1 else 0)"]
  show ?thesis using Object by simp
qed (use assms in auto)

subsection \<open>\<open>_matchConditions\<close>\<close>

text \<open>
  \<open>matchConditions dp row conditions\<close> is \<open>_matchConditions(row, conditions)\<close>: \<open>Inr\<close> the
  boolean it returns, \<open>Inl\<close> what it throws. The loop over the keys reads each key with
  its value. \<open>row.rowID\<close> and \<open>row[key]\<close> are \<open>row_get\<close>.
\<close>

function matchConditions :: "(string \<Rightarrow> jsnum) \<Rightarrow> row \<Rightarrow> jsval \<Rightarrow> error + bool" where
  "matchConditions dp row conditions =
     (if \<not> truthy conditions \<or> length (own_keys conditions) = 0 then Inr True
      else
        case has_rowID conditions of
          Inl e \<Rightarrow> Inl e
        | Inr True \<Rightarrow>
            (case get_rowID conditions of
               Array L \<Rightarrow> Inr (array_includes L (row_get row ''rowID''))
             | condVal \<Rightarrow> Inr (strict_eq (row_get row ''rowID'') (Prim (Num (to_number condVal)))))
        | Inr False \<Rightarrow>
            every_clause
              (\<lambda>kv.
                 if fst kv = ''AND'' then matchConditions dp row (snd kv)
                 else if fst kv = ''OR'' then
                   some_clause (\<lambda>sub. matchConditions dp row (Object [(fst sub, snd sub)]))
                     (entries (snd kv))
                 else if fst kv = ''NOT'' then negated (matchConditions dp row (snd kv))
                 else field_clause dp (row_get row (fst kv)) (snd kv))
              (entries conditions))"
  by pat_completeness auto

termination matchConditions
proof (relation "measure (\<lambda>(dp, row, c). csize c)", goal_cases)
  case 1
  show ?case by simp
next
  case (2 dp row conditions x2 kv)
  then have "kv \<in> set (entries conditions)" "\<not> list_all is_digit (fst kv)"
    by (simp_all add: is_digit_def)
  from entries_csize_strict [OF this] show ?case by simp
next
  case (3 dp row conditions x2 kv sub)
  then have "kv \<in> set (entries conditions)" "\<not> list_all is_digit (fst kv)"
    by (simp_all add: is_digit_def)
  from entries_csize_strict [OF this] have "Suc (csize (snd kv)) < csize conditions"
    using 3 by simp
  moreover have "csize (snd sub) + (if fst sub = ''OR'' then 1 else 0) \<le> csize (snd kv)"
    using 3 entries_csize [of sub "snd kv"] by simp
  ultimately show ?case by simp
next
  case (4 dp row conditions x2 kv)
  then have "kv \<in> set (entries conditions)" "\<not> list_all is_digit (fst kv)"
    by (simp_all add: is_digit_def)
  from entries_csize_strict [OF this] show ?case by simp
qed

declare matchConditions.simps [simp del]

section \<open>The table and its callers\<close>

subsection \<open>\<open>getTable\<close>\<close>

text \<open>
  The coercion of one display string, the body of \<open>headers.forEach\<close>:
  \<^verbatim>\<open>if (/^\d{4}-\d{2}-\d{2}$/.test(val)) obj[h] = val;
else if (!isNaN(val) && val.trim() !== "") obj[h] = Number(val);
else obj[h] = val;\<close>
\<close>

definition coerce_cell :: "string \<Rightarrow> prim" where
  "coerce_cell val =
     (if match_toks iso_pattern val then Str val
      else if \<not> isNaN (str_to_num val) \<and> trim val \<noteq> [] then Num (str_to_num val)
      else Str val)"

text \<open>
  \<open>row[i]\<close> and its coercion. A row shorter than the header row gives \<open>undefined\<close>, which
  fails the pattern, is \<open>NaN\<close> as a number, and is stored as it is.
\<close>

definition cell_value :: "string list \<Rightarrow> nat \<Rightarrow> prim" where
  "cell_value cells i = (if i < length cells then coerce_cell (cells ! i) else Undefined)"

text \<open>The object of one data row: \<open>rowID\<close> first, then one assignment per header.\<close>

definition make_row :: "string list \<Rightarrow> string list \<Rightarrow> nat \<Rightarrow> row" where
  "make_row headers cells idx =
     fold (\<lambda>hi obj. obj(fst hi \<mapsto> cell_value cells (snd hi)))
       (zip headers [0..<length headers])
       [''rowID'' \<mapsto> Num (Fin (of_nat (idx + 2)))]"

text \<open>
  A sheet is given by what \<open>getDataRange().getDisplayValues()\<close> reads from it: its rows of
  display strings, the header row first. \<open>None\<close> is a missing sheet object.
\<close>

type_synonym sheet = "string list list"

definition getTable :: "sheet option \<Rightarrow> error + row list" where
  "getTable sheetObj =
     (case sheetObj of
        None \<Rightarrow> Inl (Error ''Sheet object is required.'')
      | Some values \<Rightarrow>
          (case values of
             headers # r # rs \<Rightarrow>
               Inr (map (\<lambda>ri. make_row headers (fst ri) (snd ri))
                      (zip (r # rs) [0..<length (r # rs)]))
           | _ \<Rightarrow> Inr []))"

subsection \<open>\<open>getRowsFromTable\<close> and \<open>getValuesFromTable\<close>\<close>

text \<open>\<open>table.filter(row => this._matchConditions(row, conditions))\<close>; a throw ends it.\<close>

primrec filter_rows :: "(string \<Rightarrow> jsnum) \<Rightarrow> jsval \<Rightarrow> row list \<Rightarrow> error + row list" where
  "filter_rows dp conditions [] = Inr []"
| "filter_rows dp conditions (r # rs) =
     (case matchConditions dp r conditions of
        Inl e \<Rightarrow> Inl e
      | Inr b \<Rightarrow>
          (case filter_rows dp conditions rs of
             Inl e \<Rightarrow> Inl e
           | Inr out \<Rightarrow> Inr (if b then r # out else out)))"

text \<open>\<open>let sub = {}; column_names.forEach(c => sub[c] = r[c]); return sub;\<close>\<close>

definition select_columns :: "string list \<Rightarrow> row \<Rightarrow> row" where
  "select_columns column_names r = fold (\<lambda>c sub. sub(c \<mapsto> row_get r c)) column_names Map.empty"

definition getRowsFromTable ::
  "(string \<Rightarrow> jsnum) \<Rightarrow> row list \<Rightarrow> jsval \<Rightarrow> string list option \<Rightarrow> error + row list" where
  "getRowsFromTable dp table conditions column_names =
     (case filter_rows dp conditions table of
        Inl e \<Rightarrow> Inl e
      | Inr rs \<Rightarrow>
          Inr (map (\<lambda>r. case column_names of None \<Rightarrow> r | Some cs \<Rightarrow> select_columns cs r) rs))"

definition getValuesFromTable ::
  "(string \<Rightarrow> jsnum) \<Rightarrow> row list \<Rightarrow> jsval \<Rightarrow> string \<Rightarrow> error + prim list" where
  "getValuesFromTable dp table conditions column_name =
     (case getRowsFromTable dp table conditions (Some [column_name]) of
        Inl e \<Rightarrow> Inl e
      | Inr rs \<Rightarrow> Inr (map (\<lambda>r. row_get r column_name) rs))"

subsection \<open>\<open>deleteRows\<close>\<close>

text \<open>
  Modelled from the spec: the store's "delete a row by index", \<open>sheetObj.deleteRow(r)\<close> of
  the spreadsheet service, which is not part of the repository. Row \<open>r\<close>, counted from 1,
  is removed and the rows below it move up.
\<close>

definition deleteRow :: "nat \<Rightarrow> sheet \<Rightarrow> sheet" where
  "deleteRow r sh = take (r - 1) sh @ drop r sh"

text \<open>
  \<open>table.forEach((row, idx) => { if (match) rowsToDelete.push(idx + 2) })\<close>, over the rows
  paired with their indices.
\<close>

primrec collect_rows ::
  "(string \<Rightarrow> jsnum) \<Rightarrow> jsval \<Rightarrow> (row \<times> nat) list \<Rightarrow> nat list \<Rightarrow> error + nat list" where
  "collect_rows dp conditions [] rowsToDelete = Inr rowsToDelete"
| "collect_rows dp conditions (ri # rest) rowsToDelete =
     (case matchConditions dp (fst ri) conditions of
        Inl e \<Rightarrow> Inl e
      | Inr b \<Rightarrow>
          collect_rows dp conditions rest
            (if b then rowsToDelete @ [snd ri + 2] else rowsToDelete))"

text \<open>The arguments of the \<open>deleteRow\<close> calls, in the order they are issued.\<close>

definition delete_calls :: "(string \<Rightarrow> jsnum) \<Rightarrow> sheet option \<Rightarrow> jsval \<Rightarrow> error + nat list" where
  "delete_calls dp sheetObj conditions =
     (case getTable sheetObj of
        Inl e \<Rightarrow> Inl e
      | Inr table \<Rightarrow>
          (case collect_rows dp conditions (zip table [0..<length table]) [] of
             Inl e \<Rightarrow> Inl e
           | Inr rowsToDelete \<Rightarrow> Inr (rev rowsToDelete)))"

text \<open>
  \<open>deleteRows\<close>: the sheet after the calls. The read of the headers, whose result
  \<open>deleteRows\<close> does not use, is left out.
\<close>

definition deleteRows :: "(string \<Rightarrow> jsnum) \<Rightarrow> sheet option \<Rightarrow> jsval \<Rightarrow> error + sheet" where
  "deleteRows dp sheetObj conditions =
     (case delete_calls dp sheetObj conditions of
        Inl e \<Rightarrow> Inl e
      | Inr calls \<Rightarrow>
          (case sheetObj of
             None \<Rightarrow> Inl (Error ''Sheet object is required.'')
           | Some sh \<Rightarrow> Inr (fold deleteRow calls sh)))"

section \<open>Notions used in the properties\<close>

subsection \<open>Parts of the matcher\<close>

text \<open>The body of the loop over the keys, for one key and its value.\<close>

definition clause :: "(string \<Rightarrow> jsnum) \<Rightarrow> row \<Rightarrow> string \<times> jsval \<Rightarrow> error + bool" where
  "clause dp row kv =
     (if fst kv = ''AND'' then matchConditions dp row (snd kv)
      else if fst kv = ''OR'' then
        some_clause (\<lambda>sub. matchConditions dp row (Object [(fst sub, snd sub)])) (entries (snd kv))
      else if fst kv = ''NOT'' then negated (matchConditions dp row (snd kv))
      else field_clause dp (row_get row (fst kv)) (snd kv))"

text \<open>The \<open>rowID\<close> branch, for the value \<open>m\<close> of the \<open>rowID\<close> key.\<close>

definition rowID_result :: "row \<Rightarrow> jsval \<Rightarrow> error + bool" where
  "rowID_result row m =
     (case m of
        Array L \<Rightarrow> Inr (array_includes L (row_get row ''rowID''))
      | condVal \<Rightarrow> Inr (strict_eq (row_get row ''rowID'') (Prim (Num (to_number condVal)))))"

subsection \<open>Results of two calls combined\<close>

text \<open>
  \<open>a && b\<close> and \<open>a || b\<close> on the results of two calls of the matcher: the second call is
  made only when the first does not decide, and what a call throws is thrown.
\<close>

definition js_and :: "error + bool \<Rightarrow> error + bool \<Rightarrow> error + bool" where
  "js_and a b = (case a of Inl e \<Rightarrow> Inl e | Inr x \<Rightarrow> if x then b else Inr False)"

definition js_or :: "error + bool \<Rightarrow> error + bool \<Rightarrow> error + bool" where
  "js_or a b = (case a of Inl e \<Rightarrow> Inl e | Inr x \<Rightarrow> if x then Inr True else b)"

subsection \<open>Keys and matchers\<close>

text \<open>The keys the matcher treats itself; every other key names a column.\<close>

definition reserved_key :: "string \<Rightarrow> bool" where
  "reserved_key k = (k \<in> set [''rowID'', ''AND'', ''OR'', ''NOT''])"

text \<open>A matcher that is no regular expression, function, list or date.\<close>

definition plain_matcher :: "jsval \<Rightarrow> bool" where
  "plain_matcher m =
     (case m of
        RegExp t \<Rightarrow> False
      | Function f \<Rightarrow> False
      | Array xs \<Rightarrow> False
      | DateObj t \<Rightarrow> False
      | _ \<Rightarrow> True)"

subsection \<open>The shapes of date strings\<close>

text \<open>Two digits, a dash, two digits, a dash, four digits.\<close>

definition dmy_shape :: "string \<Rightarrow> bool" where
  "dmy_shape s =
     (length s = 10 \<and> list_all (\<lambda>i. is_digit (s ! i)) [0, 1, 3, 4, 6, 7, 8, 9] \<and>
      s ! 2 = CHR ''-'' \<and> s ! 5 = CHR ''-'')"

text \<open>Four digits, a dash, two digits, a dash, two digits: the ISO form \<open>YYYY-MM-DD\<close>.\<close>

definition iso_shape :: "string \<Rightarrow> bool" where
  "iso_shape s =
     (length s = 10 \<and> list_all (\<lambda>i. is_digit (s ! i)) [0, 1, 2, 3, 5, 6, 8, 9] \<and>
      s ! 4 = CHR ''-'' \<and> s ! 7 = CHR ''-'')"

text \<open>
  What the predicate of a function matcher is to be called with, in the words of the
  specification: the date made from the value when the value is a string of the first
  shape, the value itself otherwise.
\<close>

definition predicate_argument :: "(string \<Rightarrow> jsnum) \<Rightarrow> prim \<Rightarrow> fnarg" where
  "predicate_argument dp v =
     (case v of
        Str s \<Rightarrow> if dmy_shape s then DateArg (new_Date dp v) else Plain v
      | _ \<Rightarrow> Plain v)"

subsection \<open>Equality of list entries\<close>

text \<open>Two time values are the same instant: both are valid and equal to the millisecond.\<close>

fun same_instant :: "jsnum \<Rightarrow> jsnum \<Rightarrow> bool" where
  "same_instant (Fin a) (Fin b) = (a = b)"
| "same_instant _ _ = False"

text \<open>
  An entry of a list matcher equals the row's value: a date entry by the instant of the
  date made from the value, any other entry strictly.
\<close>

definition entry_matches :: "(string \<Rightarrow> jsnum) \<Rightarrow> prim \<Rightarrow> jsval \<Rightarrow> bool" where
  "entry_matches dp rowVal v =
     (case v of
        DateObj t \<Rightarrow> same_instant (new_Date dp rowVal) t
      | _ \<Rightarrow> strict_eq rowVal v)"

subsection \<open>Condition trees\<close>

text \<open>
  A condition tree of the data model: absent, or an object whose \<open>AND\<close>, \<open>OR\<close> and \<open>NOT\<close>
  keys hold condition trees. The value of any other key is a matcher, and may be any
  value at all.
\<close>

fun cond_tree :: "jsval \<Rightarrow> bool" where
  "cond_tree (Prim Undefined) = True"
| "cond_tree (Prim Null) = True"
| "cond_tree (Object kvs) =
     list_all (\<lambda>kv. fst kv \<in> set [''AND'', ''OR'', ''NOT''] \<longrightarrow> cond_tree (snd kv)) kvs"
| "cond_tree _ = False"

text \<open>No predicate function anywhere in the value throws.\<close>

fun total_predicates :: "jsval \<Rightarrow> bool" where
  "total_predicates (Function f) = (\<forall>x. f x \<noteq> None)"
| "total_predicates (Array xs) = list_all total_predicates xs"
| "total_predicates (Object kvs) = list_all (\<lambda>kv. total_predicates (snd kv)) kvs"
| "total_predicates _ = True"

text \<open>A call returns, or throws one of the errors in \<open>A\<close>.\<close>

definition throws_only :: "error set \<Rightarrow> error + bool \<Rightarrow> bool" where
  "throws_only A r = (case r of Inr b \<Rightarrow> True | Inl e \<Rightarrow> e \<in> A)"

subsection \<open>The coercion policy and the rows to delete\<close>

text \<open>
  The coercion of a display string in the words of the specification: a string of the ISO
  form is kept; otherwise a string that is not blank and parses as a number becomes that
  number; otherwise the string is kept.
\<close>

definition coerce_policy :: "string \<Rightarrow> prim" where
  "coerce_policy s =
     (if iso_shape s then Str s
      else if trim s \<noteq> [] \<and> str_to_num s \<noteq> NaN then Num (str_to_num s)
      else Str s)"

text \<open>
  The sheet positions of the rows of a table that match a condition, in the order of the
  table: index \<open>i\<close> of the table is row \<open>i + 2\<close> of the sheet.
\<close>

definition matching_positions :: "(string \<Rightarrow> jsnum) \<Rightarrow> row list \<Rightarrow> jsval \<Rightarrow> nat list" where
  "matching_positions dp table c =
     map (\<lambda>i. i + 2) (filter (\<lambda>i. matchConditions dp (table ! i) c = Inr True) [0..<length table])"

subsection \<open>The scenario of the specification\<close>

text \<open>The predicate \<open>a => a > 18\<close>: \<open>>\<close> compares its left operand as a number.\<close>

definition gt18 :: "fnarg \<Rightarrow> bool option" where
  "gt18 x =
     Some (case (case x of Plain p \<Rightarrow> to_number (Prim p) | DateArg t \<Rightarrow> t) of
             Fin q \<Rightarrow> 18 < q
           | PosInf \<Rightarrow> True
           | _ \<Rightarrow> False)"

text \<open>\<open>{AND: {age: a => a > 18, OR: {status: ["Open", "Pending"]}}}\<close>\<close>

definition scenario :: jsval where
  "scenario =
     Object [(''AND'', Object [(''age'', Function gt18),
       (''OR'', Object [(''status'', Array [Prim (Str ''Open''), Prim (Str ''Pending'')])])])]"

text \<open>A sheet with a header row and five data rows, at the positions 2 to 6.\<close>

definition five_rows :: sheet where
  "five_rows = [[''name''], [''a''], [''b''], [''c''], [''d''], [''e'']]"

section \<open>Unfolding the matcher\<close>

lemma matchConditions_absent:
  "matchConditions dp row (Prim Undefined) = Inr True"
  "matchConditions dp row (Prim Null) = Inr True"
  "matchConditions dp row (Object []) = Inr True"
  by (simp_all add: matchConditions.simps own_keys_def)

lemma matchConditions_Object:
  "matchConditions dp row (Object kvs) =
     (if kvs = [] then Inr True
      else if ''rowID'' \<in> set (map fst kvs) then rowID_result row (get_rowID (Object kvs))
      else every_clause (clause dp row) kvs)"
proof -
  have c: "(\<lambda>kv.
                 if fst kv = ''AND'' then matchConditions dp row (snd kv)
                 else if fst kv = ''OR'' then
                   some_clause (\<lambda>sub. matchConditions dp row (Object [(fst sub, snd sub)]))
                     (entries (snd kv))
                 else if fst kv = ''NOT'' then negated (matchConditions dp row (snd kv))
                 else field_clause dp (row_get row (fst kv)) (snd kv)) = clause dp row"
    by (rule ext) (simp add: clause_def)
  show ?thesis
    by (subst matchConditions.simps) (simp add: own_keys_def c rowID_result_def del: set_map)
qed

lemma matchConditions_single:
  "k \<noteq> ''rowID'' \<Longrightarrow> matchConditions dp row (Object [(k, v)]) = clause dp row (k, v)"
  by (cases "clause dp row (k, v)") (auto simp: matchConditions_Object)

lemma rowID_key:
  "map_of kvs ''rowID'' = Some m \<Longrightarrow> kvs \<noteq> [] \<and> ''rowID'' \<in> set (map fst kvs)"
  by (auto dest: map_of_SomeD intro: rev_image_eqI)

lemma matchConditions_rowID:
  assumes "map_of kvs ''rowID'' = Some m"
  shows "matchConditions dp R (Object kvs) = rowID_result R m"
proof -
  have "get_rowID (Object kvs) = m" using assms by simp
  then show ?thesis
    using rowID_key [OF assms] by (simp add: matchConditions_Object del: set_map get_rowID.simps)
qed

lemma array_includes_mem: "array_includes L x \<longleftrightarrow> Prim x \<in> set L"
  by (induction L) (auto simp: array_includes_def split: jsval.splits)

lemma strict_eq_number: "strict_eq x (Prim (Num n)) \<longleftrightarrow> (x = Num n \<and> n \<noteq> NaN)"
  by (cases x) (auto simp: num_eq_def)

lemma negated_negated: "negated (negated r) = r"
  by (cases r) auto

lemma matchConditions_NOT:
  "matchConditions dp R (Object [(''NOT'', C)]) = negated (matchConditions dp R C)"
  by (simp add: matchConditions_single clause_def)

lemma matchConditions_field:
  "\<not> reserved_key k \<Longrightarrow> matchConditions dp R (Object [(k, m)]) = field_clause dp (row_get R k) m"
  by (simp add: reserved_key_def matchConditions_single clause_def)

lemma every_clause_pair: "every_clause f [x, y] = js_and (f x) (f y)"
  by (cases "f x"; cases "f y") (auto simp: js_and_def)

lemma some_clause_pair: "some_clause f [x, y] = js_or (f x) (f y)"
  by (cases "f x"; cases "f y") (auto simp: js_or_def)

lemma matchConditions_pair:
  assumes "a \<noteq> ''rowID''" "b \<noteq> ''rowID''"
  shows "matchConditions dp R (Object [(a, X), (b, Y)]) =
         js_and (matchConditions dp R (Object [(a, X)])) (matchConditions dp R (Object [(b, Y)]))"
  using assms
  by (simp add: matchConditions_single matchConditions_Object [of dp R "[(a, X), (b, Y)]"]
      every_clause_pair del: every_clause.simps)

lemma field_single:
  "k \<notin> set [''rowID'', ''AND'', ''OR'', ''NOT''] \<Longrightarrow>
   matchConditions dp R (Object [(k, m)]) = field_clause dp (row_get R k) m"
  by (simp add: matchConditions_single clause_def)

section \<open>Lemmas\<close>

subsection \<open>Date patterns\<close>

lemma match_toks_length: "match_toks ts s \<Longrightarrow> length s = length ts"
  by (induction ts s rule: match_toks.induct) auto

lemma length_ten:
  "length s = 10 \<Longrightarrow> \<exists>c0 c1 c2 c3 c4 c5 c6 c7 c8 c9. s = [c0, c1, c2, c3, c4, c5, c6, c7, c8, c9]"
  by (auto simp: eval_nat_numeral length_Suc_conv)

lemma match_dmy: "match_toks dmy_pattern s \<longleftrightarrow> dmy_shape s"
proof (cases "length s = 10")
  case True
  from length_ten [OF this] obtain c0 c1 c2 c3 c4 c5 c6 c7 c8 c9
    where "s = [c0, c1, c2, c3, c4, c5, c6, c7, c8, c9]" by blast
  then show ?thesis
    by (auto simp add: dmy_pattern_def dmy_shape_def eval_nat_numeral)
next
  case False
  moreover have "length dmy_pattern = 10" by (simp add: dmy_pattern_def)
  ultimately show ?thesis using match_toks_length [of dmy_pattern s] by (auto simp: dmy_shape_def)
qed

lemma match_iso: "match_toks iso_pattern s \<longleftrightarrow> iso_shape s"
proof (cases "length s = 10")
  case True
  from length_ten [OF this] obtain c0 c1 c2 c3 c4 c5 c6 c7 c8 c9
    where "s = [c0, c1, c2, c3, c4, c5, c6, c7, c8, c9]" by blast
  then show ?thesis
    by (auto simp add: iso_pattern_def iso_shape_def eval_nat_numeral)
next
  case False
  moreover have "length iso_pattern = 10" by (simp add: iso_pattern_def)
  ultimately show ?thesis using match_toks_length [of iso_pattern s] by (auto simp: iso_shape_def)
qed

lemma iso_not_dmy: "iso_shape s \<Longrightarrow> \<not> dmy_shape s"
  by (auto simp: iso_shape_def dmy_shape_def is_digit_def)

lemma test_dmy_iff: "test_dmy v \<longleftrightarrow> (\<exists>s. v = Str s \<and> dmy_shape s)"
  by (cases v) (simp_all add: match_dmy)

subsection \<open>Dates\<close>

lemma time_clip_cases: "time_clip n = NaN \<or> (\<exists>q. time_clip n = Fin q)"
  by (cases n) (auto simp: time_clip_def)

lemma new_Date_cases: "new_Date dp v = NaN \<or> (\<exists>q. new_Date dp v = Fin q)"
  using time_clip_cases by (cases v) auto

lemma num_eq_new_Date: "num_eq (new_Date dp v) t \<longleftrightarrow> same_instant (new_Date dp v) t"
  using new_Date_cases [of dp v] by (cases t) (auto simp: num_eq_def)

subsection \<open>What the matcher throws\<close>

lemma every_clause_throws: "\<forall>x \<in> set xs. throws_only A (f x) \<Longrightarrow> throws_only A (every_clause f xs)"
proof (induction xs)
  case (Cons x xs)
  then have "throws_only A (f x)" "throws_only A (every_clause f xs)" by simp_all
  then show ?case by (cases "f x") (auto simp: throws_only_def)
qed (simp add: throws_only_def)

lemma some_clause_throws: "\<forall>x \<in> set xs. throws_only A (f x) \<Longrightarrow> throws_only A (some_clause f xs)"
proof (induction xs)
  case (Cons x xs)
  then have "throws_only A (f x)" "throws_only A (some_clause f xs)" by simp_all
  then show ?case by (cases "f x") (auto simp: throws_only_def)
qed (simp add: throws_only_def)

lemma negated_throws: "throws_only A r \<Longrightarrow> throws_only A (negated r)"
  by (cases r) (auto simp: throws_only_def)

lemma rowID_result_throws: "throws_only A (rowID_result R m)"
  by (cases m) (auto simp: throws_only_def rowID_result_def)

lemma field_clause_Thrown: "throws_only {Thrown} (field_clause dp v m)"
  by (cases m) (auto simp: throws_only_def Let_def split: option.splits)

lemma field_clause_total: "total_predicates m \<Longrightarrow> throws_only {} (field_clause dp v m)"
proof (cases m)
  case (Function f)
  assume "total_predicates m"
  with Function have t: "\<And>x. f x \<noteq> None" by simp
  let ?a = "if test_dmy v then DateArg (new_Date dp v) else Plain v"
  obtain b where "f ?a = Some b" using t [of ?a] by (cases "f ?a") auto
  then show ?thesis using Function by (simp add: throws_only_def Let_def)
qed (auto simp: throws_only_def)

lemma cond_tree_entries:
  "cond_tree c \<Longrightarrow> kv \<in> set (entries c) \<Longrightarrow> fst kv \<in> set [''AND'', ''OR'', ''NOT''] \<Longrightarrow> cond_tree (snd kv)"
  by (induction c rule: cond_tree.induct) (auto simp: list_all_iff)

lemma cond_tree_single:
  "cond_tree c \<Longrightarrow> kv \<in> set (entries c) \<Longrightarrow> cond_tree (Object [(fst kv, snd kv)])"
  by (induction c rule: cond_tree.induct) (auto simp: list_all_iff)

lemma total_predicates_entries:
  "total_predicates c \<Longrightarrow> kv \<in> set (entries c) \<Longrightarrow> total_predicates (snd kv)"
proof (cases c)
  case (Prim p)
  assume "kv \<in> set (entries c)"
  then show ?thesis using Prim by (cases p) auto
qed (auto simp: list_all_iff)

lemma matchConditions_throws:
  assumes field: "\<And>v m. T m \<Longrightarrow> throws_only A (field_clause dp v m)"
    and sub: "\<And>c kv. T c \<Longrightarrow> kv \<in> set (entries c) \<Longrightarrow> T (snd kv)"
    and single: "\<And>k v. T v \<Longrightarrow> T (Object [(k, v)])"
  shows "cond_tree c \<Longrightarrow> T c \<Longrightarrow> throws_only A (matchConditions dp R c)"
proof (induction c rule: measure_induct_rule [of csize])
  case (less c)
  show ?case
  proof (cases c)
    case (Object kvs)
    show ?thesis
    proof (cases "kvs = [] \<or> ''rowID'' \<in> set (map fst kvs)")
      case True
      show ?thesis
      proof (cases "kvs = []")
        case True
        then show ?thesis using Object by (simp add: matchConditions_absent throws_only_def)
      next
        case False
        with True have "matchConditions dp R c = rowID_result R (get_rowID (Object kvs))"
          using Object by (simp add: matchConditions_Object del: set_map get_rowID.simps)
        then show ?thesis by (simp add: rowID_result_throws)
      qed
    next
      case False
      have "throws_only A (clause dp R kv)" if kv: "kv \<in> set kvs" for kv
      proof -
        have in_c: "kv \<in> set (entries c)" using kv Object by simp
        have T_kv: "T (snd kv)" using sub [OF less.prems(2) in_c] .
        consider (a) "fst kv = ''AND'' \<or> fst kv = ''NOT''" | (o) "fst kv = ''OR''"
          | (f) "fst kv \<notin> set [''AND'', ''OR'', ''NOT'']" by auto
        then show ?thesis
        proof cases
          case a
          then have nd: "\<not> list_all is_digit (fst kv)" by (auto simp: is_digit_def)
          have "csize (snd kv) < csize c" using entries_csize_strict [OF in_c nd] by simp
          moreover have "cond_tree (snd kv)" using cond_tree_entries [OF less.prems(1) in_c] a by auto
          ultimately have "throws_only A (matchConditions dp R (snd kv))" using less.IH T_kv by blast
          then show ?thesis using a by (auto simp: clause_def negated_throws)
        next
          case o
          then have nd: "\<not> list_all is_digit (fst kv)" by (auto simp: is_digit_def)
          have lt: "Suc (csize (snd kv)) < csize c" using entries_csize_strict [OF in_c nd] o by simp
          have ct: "cond_tree (snd kv)" using cond_tree_entries [OF less.prems(1) in_c] o by auto
          have "throws_only A (matchConditions dp R (Object [(fst sub, snd sub)]))"
            if sub': "sub \<in> set (entries (snd kv))" for sub
          proof -
            have "csize (Object [(fst sub, snd sub)]) < csize c"
              using entries_csize [OF sub'] lt by simp
            moreover have "cond_tree (Object [(fst sub, snd sub)])"
              using cond_tree_single [OF ct sub'] .
            moreover have "T (Object [(fst sub, snd sub)])"
              using single [OF sub [OF T_kv sub']] .
            ultimately show ?thesis using less.IH by blast
          qed
          then show ?thesis using o by (simp add: clause_def some_clause_throws)
        next
          case f
          then show ?thesis using field [OF T_kv] by (simp add: clause_def)
        qed
      qed
      then show ?thesis using False Object
        by (simp add: matchConditions_Object every_clause_throws del: set_map)
    qed
  next
    case (Prim p)
    then show ?thesis using less.prems
      by (cases p) (auto simp: matchConditions_absent throws_only_def)
  qed (use less.prems in auto)
qed

lemma matchConditions_no_TypeError:
  "cond_tree c \<Longrightarrow> throws_only {Thrown} (matchConditions dp R c)"
  using matchConditions_throws [of "\<lambda>_. True" "{Thrown}" dp c R] field_clause_Thrown by simp

lemma matchConditions_returns:
  assumes "cond_tree c" "total_predicates c"
  shows "\<exists>b. matchConditions dp R c = Inr b"
proof -
  have "throws_only {} (matchConditions dp R c)"
  proof (rule matchConditions_throws [of total_predicates "{}" dp c R])
    show "throws_only {} (field_clause dp v m)" if "total_predicates m" for v m
      using that by (rule field_clause_total)
    show "total_predicates (snd kv)" if "total_predicates c" "kv \<in> set (entries c)" for c kv
      using that by (rule total_predicates_entries)
    show "total_predicates (Object [(k, v)])" if "total_predicates v" for k v
      using that by simp
  qed (use assms in simp_all)
  then show ?thesis by (cases "matchConditions dp R c") (auto simp: throws_only_def)
qed

lemma plain_field: "plain_matcher m \<Longrightarrow> field_clause dp v m = Inr (strict_eq v m)"
  by (cases m) (auto simp: plain_matcher_def)

subsection \<open>The table loader\<close>

lemma coerce_cell_policy: "coerce_cell s = coerce_policy s"
  by (auto simp: coerce_cell_def coerce_policy_def match_iso isNaN_def)

lemma fold_assign_lookup:
  "fold (\<lambda>hi obj. obj(fst hi \<mapsto> g (snd hi))) ps m k =
     (case map_of (rev ps) k of None \<Rightarrow> m k | Some j \<Rightarrow> Some (g j))"
  by (induction ps arbitrary: m) (auto simp: map_add_def split: option.splits)

lemma map_of_rev_distinct: "distinct (map fst ps) \<Longrightarrow> map_of (rev ps) = map_of ps"
proof (induction ps)
  case (Cons p ps)
  then have "map_of ps (fst p) = None" by (auto simp: map_of_eq_None_iff)
  then show ?case using Cons by (cases p) (auto simp: map_add_def fun_eq_iff split: option.splits)
qed simp

lemma make_row_header:
  assumes "distinct headers" "i < length headers"
  shows "row_get (make_row headers cells idx) (headers ! i) = cell_value cells i"
proof -
  let ?ps = "zip headers [0..<length headers]"
  have "distinct (map fst ?ps)" using assms by simp
  then have "map_of (rev ?ps) (headers ! i) = map_of ?ps (headers ! i)"
    by (simp add: map_of_rev_distinct)
  also have "\<dots> = Some ([0..<length headers] ! i)"
    using assms by (intro map_of_zip_nth) simp_all
  finally have "map_of (rev ?ps) (headers ! i) = Some i" using assms by simp
  then show ?thesis
    by (simp add: make_row_def row_get_def fold_assign_lookup)
qed

lemma make_row_rowID:
  assumes "''rowID'' \<notin> set headers"
  shows "row_get (make_row headers cells idx) ''rowID'' = Num (Fin (of_nat (idx + 2)))"
proof -
  let ?ps = "zip headers [0..<length headers]"
  have "''rowID'' \<notin> fst ` set (rev ?ps)" using assms by (auto dest: set_zip_leftD)
  then have "map_of (rev ?ps) ''rowID'' = None" by (simp add: map_of_eq_None_iff)
  then show ?thesis
    by (simp add: make_row_def row_get_def fold_assign_lookup)
qed

lemma getTable_rows:
  "getTable (Some (headers # rows)) =
     Inr (map (\<lambda>j. make_row headers (rows ! j) j) [0..<length rows])"
proof (cases rows)
  case (Cons r rs)
  have "map (\<lambda>ri. make_row headers (fst ri) (snd ri)) (zip rows [0..<length rows])
      = map (\<lambda>j. make_row headers (rows ! j) j) [0..<length rows]"
    by (rule nth_equalityI) simp_all
  then show ?thesis using Cons by (simp add: getTable_def)
qed (simp add: getTable_def)

lemmas num_eval = str_to_num_def trim_def is_ws_def signed_decimal_def unsigned_decimal_def
      is_digit_def exponent_part_def scale10_def dec_value_def digits_opt_def radix_literal_def
      radix_digit_def Let_def

subsection \<open>Filtering and projecting\<close>

lemma filter_rows_Inr:
  "filter_rows dp c t = Inr rs \<Longrightarrow> rs = filter (\<lambda>r. matchConditions dp r c = Inr True) t"
  by (induction t arbitrary: rs) (auto split: sum.splits if_splits)

lemma filter_rows_returns:
  "\<forall>r \<in> set t. \<exists>b. matchConditions dp r c = Inr b \<Longrightarrow> \<exists>rs. filter_rows dp c t = Inr rs"
  by (induction t) (auto split: sum.splits)

lemma select_single: "row_get (select_columns [col] r) col = row_get r col"
  by (simp add: select_columns_def row_get_def)

subsection \<open>Deleting rows from the bottom up\<close>

lemma collect_rows_Inr:
  "collect_rows dp c ris acc = Inr ps \<Longrightarrow>
   ps = acc @ map (\<lambda>ri. snd ri + 2) (filter (\<lambda>ri. matchConditions dp (fst ri) c = Inr True) ris)"
proof (induction ris arbitrary: acc)
  case Nil
  then show ?case by simp
next
  case (Cons ri ris)
  show ?case
  proof (cases "matchConditions dp (fst ri) c")
    case (Inl e)
    then show ?thesis using Cons.prems by simp
  next
    case (Inr b)
    with Cons.prems
    have "collect_rows dp c ris (if b then acc @ [snd ri + 2] else acc) = Inr ps" by simp
    from Cons.IH [OF this] show ?thesis using Inr by (cases b) simp_all
  qed
qed

lemma collect_rows_returns:
  "\<forall>ri \<in> set ris. \<exists>b. matchConditions dp (fst ri) c = Inr b \<Longrightarrow>
   \<exists>ps. collect_rows dp c ris acc = Inr ps"
  by (induction ris arbitrary: acc) (auto split: sum.splits)

lemma zip_upt_map: "zip xs [0..<length xs] = map (\<lambda>i. (xs ! i, i)) [0..<length xs]"
  by (rule nth_equalityI) simp_all

lemma collected_positions:
  "map (\<lambda>ri. snd ri + 2)
     (filter (\<lambda>ri. matchConditions dp (fst ri) c = Inr True) (zip table [0..<length table]))
   = matching_positions dp table c"
  by (simp add: zip_upt_map filter_map o_def matching_positions_def)

lemma matching_positions_ascending: "sorted_wrt (<) (matching_positions dp table c)"
  unfolding matching_positions_def
  by (simp add: sorted_wrt_map sorted_wrt_filter)

lemma nths_cong_length:
  "(\<And>i. i < length xs \<Longrightarrow> i \<in> A \<longleftrightarrow> i \<in> B) \<Longrightarrow> nths xs A = nths xs B"
  unfolding nths_def
  by (rule arg_cong [where f = "map fst"], rule filter_cong) (auto dest: set_zip_rightD)

lemma nths_split_at:
  assumes "q < length sh"
  shows "nths sh S =
    nths (take q sh) S @ (if q \<in> S then [sh ! q] else []) @ nths (drop (Suc q) sh) {j. j + Suc q \<in> S}"
proof -
  have l: "length (take q sh) = q" using assms by simp
  have "nths sh S = nths (take q sh @ sh ! q # drop (Suc q) sh) S"
    using assms by (simp add: id_take_nth_drop [symmetric])
  also have "\<dots> = nths (take q sh) S @ nths (sh ! q # drop (Suc q) sh) {j. j + q \<in> S}"
    unfolding nths_append l ..
  finally show ?thesis by (simp add: nths_Cons)
qed

lemma deleteRow_nths:
  fixes sh :: sheet
  assumes "0 < p"
  shows "deleteRow p sh = nths sh {i. Suc i \<noteq> p}"
proof -
  obtain q where p: "p = Suc q" using assms by (cases p) auto
  show ?thesis
  proof (cases "q < length sh")
    case True
    have "nths (take q sh) {i. Suc i \<noteq> p} = take q sh"
      using p by (intro nths_all) auto
    moreover have "nths (drop (Suc q) sh) {j. j + Suc q \<in> {i. Suc i \<noteq> p}} = drop (Suc q) sh"
      using p by (intro nths_all) auto
    ultimately show ?thesis
      using nths_split_at [OF True, of "{i. Suc i \<noteq> p}"] p by (simp add: deleteRow_def)
  next
    case False
    then have "nths sh {i. Suc i \<noteq> p} = sh" using p by (intro nths_all) auto
    then show ?thesis using False p by (simp add: deleteRow_def)
  qed
qed

lemma nths_nths_above:
  fixes sh :: sheet
  assumes "\<forall>q \<in> set ps. q < p" "0 < p"
  shows "nths (deleteRow p sh) {i. Suc i \<notin> set ps} = nths sh {i. Suc i \<notin> set (p # ps)}"
proof -
  obtain q where p: "p = Suc q" using assms by (cases p) auto
  let ?A = "{i. Suc i \<notin> set ps}"
  let ?B = "{i. Suc i \<notin> set (p # ps)}"
  show ?thesis
  proof (cases "q < length sh")
    case True
    have l: "length (take q sh) = q" using True by simp
    have "nths (drop (Suc q) sh) {j. j + q \<in> ?A} = drop (Suc q) sh"
      using assms(1) p by (intro nths_all) auto
    have d: "deleteRow p sh = take q sh @ drop (Suc q) sh"
      by (simp add: deleteRow_def p)
    have "nths (drop (Suc q) sh) {j. j + q \<in> ?A} = drop (Suc q) sh"
      using assms(1) p by (intro nths_all) auto
    then have lhs: "nths (deleteRow p sh) ?A = nths (take q sh) ?A @ drop (Suc q) sh"
      unfolding d nths_append l by simp
    have "nths (take q sh) ?B = nths (take q sh) ?A"
      by (rule nths_cong_length) (auto simp: p)
    moreover have "nths (drop (Suc q) sh) {j. j + Suc q \<in> ?B} = drop (Suc q) sh"
      using assms(1) p by (intro nths_all) auto
    ultimately have "nths sh ?B = nths (take q sh) ?A @ drop (Suc q) sh"
      using nths_split_at [OF True, of ?B] p by simp
    with lhs show ?thesis by simp
  next
    case False
    then have "deleteRow p sh = sh" using p by (simp add: deleteRow_def)
    moreover have "nths sh ?A = nths sh ?B"
      using False p by (intro nths_cong_length) auto
    ultimately show ?thesis by simp
  qed
qed

lemma fold_deleteRow:
  fixes sh :: sheet
  shows "sorted_wrt (>) ps \<Longrightarrow> 0 \<notin> set ps \<Longrightarrow> fold deleteRow ps sh = nths sh {i. Suc i \<notin> set ps}"
proof (induction ps arbitrary: sh)
  case Nil
  then show ?case by (simp add: nths_all)
next
  case (Cons p ps)
  then have p: "0 < p" "\<forall>q \<in> set ps. q < p" by auto
  have "fold deleteRow (p # ps) sh = fold deleteRow ps (deleteRow p sh)" by simp
  also have "\<dots> = nths (deleteRow p sh) {i. Suc i \<notin> set ps}"
    using Cons by simp
  also have "\<dots> = nths sh {i. Suc i \<notin> set (p # ps)}"
    using nths_nths_above [OF p(2) p(1), of sh] by simp
  finally show ?case .
qed

section \<open>Properties of the matcher\<close>

text \<open>
  C1. When the condition object has a key \<open>rowID\<close> with value \<open>m\<close>, the other keys are
  ignored: the result is that of the condition \<open>{rowID: m}\<close> alone. For a list \<open>L\<close> it is
  true iff \<open>L\<close> holds the row's \<open>rowID\<close> itself (the members are not coerced: a string \<open>"3"\<close>
  in \<open>L\<close> is not the number \<open>3\<close>); for any other \<open>m\<close> it is true iff the row's \<open>rowID\<close> is
  the number that \<open>Number(m)\<close> gives, \<open>NaN\<close> being equal to nothing.
\<close>

theorem rowID_overrides_other_keys:
  assumes "map_of kvs ''rowID'' = Some m"
  shows "matchConditions dp R (Object kvs) = matchConditions dp R (Object [(''rowID'', m)]) \<and>
    (\<forall>L. m = Array L \<longrightarrow>
       matchConditions dp R (Object kvs) = Inr (Prim (row_get R ''rowID'') \<in> set L)) \<and>
    ((\<forall>L. m \<noteq> Array L) \<longrightarrow>
       matchConditions dp R (Object kvs) =
         Inr (row_get R ''rowID'' = Num (to_number m) \<and> to_number m \<noteq> NaN))"
proof (intro conjI allI impI)
  show "matchConditions dp R (Object kvs) = matchConditions dp R (Object [(''rowID'', m)])"
    using matchConditions_rowID [OF assms, of dp R]
      matchConditions_rowID [of "[(''rowID'', m)]" m dp R] by simp
next
  fix L assume "m = Array L"
  then show "matchConditions dp R (Object kvs) = Inr (Prim (row_get R ''rowID'') \<in> set L)"
    using matchConditions_rowID [OF assms, of dp R]
    by (simp add: rowID_result_def array_includes_mem)
next
  assume "\<forall>L. m \<noteq> Array L"
  then show "matchConditions dp R (Object kvs) =
      Inr (row_get R ''rowID'' = Num (to_number m) \<and> to_number m \<noteq> NaN)"
    using matchConditions_rowID [OF assms, of dp R]
    by (cases m) (simp_all add: rowID_result_def strict_eq_number)
qed

text \<open>
  Row 5 against \<open>{status: "Active", rowID: [2, 5]}\<close> and against
  \<open>{status: "Active", rowID: "5"}\<close>: both match, whatever the row's status is.
\<close>

theorem rowID_overrides_other_keys_witness:
  "matchConditions (\<lambda>s. NaN) [''rowID'' \<mapsto> Num (Fin 5), ''status'' \<mapsto> Str ''Pending'']
     (Object [(''status'', Prim (Str ''Active'')),
              (''rowID'', Array [Prim (Num (Fin 2)), Prim (Num (Fin 5))])]) = Inr True \<and>
   matchConditions (\<lambda>s. NaN) [''rowID'' \<mapsto> Num (Fin 5), ''status'' \<mapsto> Str ''Pending'']
     (Object [(''status'', Prim (Str ''Active'')), (''rowID'', Prim (Str ''5''))]) = Inr True"
proof -
  let ?R = "[''rowID'' \<mapsto> Num (Fin 5), ''status'' \<mapsto> Str ''Pending'']"
  have a: "map_of [(''status'', Prim (Str ''Active'')),
                   (''rowID'', Array [Prim (Num (Fin 2)), Prim (Num (Fin 5))])] ''rowID''
           = Some (Array [Prim (Num (Fin 2)), Prim (Num (Fin 5))])"
    by simp
  have b: "map_of [(''status'', Prim (Str ''Active'')), (''rowID'', Prim (Str ''5''))] ''rowID''
           = Some (Prim (Str ''5''))"
    by simp
  have n: "str_to_num ''5'' = Fin 5"
    by (simp add: num_eval)
  have r: "row_get ?R ''rowID'' = Num (Fin 5)"
    by (simp add: row_get_def)
  show ?thesis
    using rowID_overrides_other_keys [OF a, of "\<lambda>s. NaN" ?R, THEN conjunct2, THEN conjunct1]
      rowID_overrides_other_keys [OF b, of "\<lambda>s. NaN" ?R, THEN conjunct2, THEN conjunct2]
    by (simp add: r n)
qed

text \<open>
  C2. An absent condition (\<open>undefined\<close> or \<open>null\<close>) and an object with no keys match every
  row.
\<close>

theorem empty_condition_matches:
  "matchConditions dp R (Prim Undefined) = Inr True \<and>
   matchConditions dp R (Prim Null) = Inr True \<and>
   matchConditions dp R (Object []) = Inr True"
  by (simp add: matchConditions_absent)

theorem empty_condition_matches_witness:
  "matchConditions (\<lambda>s. NaN) [''rowID'' \<mapsto> Num (Fin 2), ''name'' \<mapsto> Str ''Asha''] (Object [])
     = Inr True"
  using empty_condition_matches [of "\<lambda>s. NaN" "[''rowID'' \<mapsto> Num (Fin 2), ''name'' \<mapsto> Str ''Asha'']"]
  by simp

text \<open>
  C3. For two keys \<open>a\<close> and \<open>b\<close> other than \<open>rowID\<close> and any values \<open>X\<close> and \<open>Y\<close>:
  \<open>{AND: {a: X, b: Y}}\<close> gives \<open>matches(R, {a: X}) && matches(R, {b: Y})\<close>,
  \<open>{OR: {a: X, b: Y}}\<close> gives \<open>matches(R, {a: X}) || matches(R, {b: Y})\<close>, and \<open>{OR: {}}\<close> is
  false. The objects are written in the order their keys are enumerated.
\<close>

theorem and_or_of_two_clauses:
  assumes "a \<noteq> ''rowID''" and "b \<noteq> ''rowID''"
  shows "matchConditions dp R (Object [(''AND'', Object [(a, X), (b, Y)])]) =
           js_and (matchConditions dp R (Object [(a, X)])) (matchConditions dp R (Object [(b, Y)])) \<and>
         matchConditions dp R (Object [(''OR'', Object [(a, X), (b, Y)])]) =
           js_or (matchConditions dp R (Object [(a, X)])) (matchConditions dp R (Object [(b, Y)])) \<and>
         matchConditions dp R (Object [(''OR'', Object [])]) = Inr False"
proof (intro conjI)
  show "matchConditions dp R (Object [(''AND'', Object [(a, X), (b, Y)])]) =
           js_and (matchConditions dp R (Object [(a, X)])) (matchConditions dp R (Object [(b, Y)]))"
    using matchConditions_pair [OF assms] by (simp add: matchConditions_single clause_def)
  show "matchConditions dp R (Object [(''OR'', Object [(a, X), (b, Y)])]) =
           js_or (matchConditions dp R (Object [(a, X)])) (matchConditions dp R (Object [(b, Y)]))"
    by (simp add: matchConditions_single [of "''OR''"] clause_def some_clause_pair del: some_clause.simps)
  show "matchConditions dp R (Object [(''OR'', Object [])]) = Inr False"
    by (simp add: matchConditions_single clause_def)
qed

text \<open>
  The scenario of the specification: row 2 (\<open>Active\<close>, 25) fails on the status, row 3
  (\<open>Pending\<close>, 17) fails on the age, and row 3 with age 20 matches.
\<close>

theorem and_or_of_two_clauses_witness:
  "matchConditions (\<lambda>s. NaN) [''rowID'' \<mapsto> Num (Fin 2), ''status'' \<mapsto> Str ''Active'', ''age'' \<mapsto> Num (Fin 25)]
     scenario = Inr False \<and>
   matchConditions (\<lambda>s. NaN) [''rowID'' \<mapsto> Num (Fin 3), ''status'' \<mapsto> Str ''Pending'', ''age'' \<mapsto> Num (Fin 17)]
     scenario = Inr False \<and>
   matchConditions (\<lambda>s. NaN) [''rowID'' \<mapsto> Num (Fin 3), ''status'' \<mapsto> Str ''Pending'', ''age'' \<mapsto> Num (Fin 20)]
     scenario = Inr True"
proof -
  have n: "''age'' \<noteq> ''rowID''" "''OR'' \<noteq> ''rowID''" by simp_all
  have o: "matchConditions dp R (Object [(''OR'', Object [(''status'', m)])])
      = field_clause dp (row_get R ''status'') m" for dp R m
    by (cases "field_clause dp (row_get R ''status'') m")
      (simp_all add: matchConditions_single clause_def field_single)
  show ?thesis
    unfolding scenario_def
    using and_or_of_two_clauses [OF n, THEN conjunct1]
    by (simp add: o field_single js_and_def gt18_def row_get_def)
qed

text \<open>
  C4. A \<open>NOT\<close> clause negates the result of its value taken as a whole condition, and two
  of them cancel: \<open>{NOT: {NOT: C}}\<close> gives what \<open>C\<close> gives, for every value \<open>C\<close>, also when
  evaluating \<open>C\<close> throws.
\<close>

theorem double_negation:
  "matchConditions dp R (Object [(''NOT'', Object [(''NOT'', C)])]) = matchConditions dp R C \<and>
   matchConditions dp R (Object [(''NOT'', C)]) = negated (matchConditions dp R C) \<and>
   (matchConditions dp R (Object [(''NOT'', C)]) = Inr True
      \<longleftrightarrow> matchConditions dp R C = Inr False)"
proof -
  have "negated r = Inr True \<longleftrightarrow> r = Inr False" for r
    by (cases r) auto
  then show ?thesis
    by (simp add: matchConditions_NOT negated_negated)
qed

text \<open>Row \<open>{status: "Active"}\<close> against \<open>{NOT: {NOT: {status: "Active"}}}\<close>.\<close>

theorem double_negation_witness:
  "matchConditions (\<lambda>s. NaN) [''status'' \<mapsto> Str ''Active'']
     (Object [(''NOT'', Object [(''NOT'', Object [(''status'', Prim (Str ''Active''))])])])
   = Inr True"
  using double_negation [of "\<lambda>s. NaN" "[''status'' \<mapsto> Str ''Active'']"
      "Object [(''status'', Prim (Str ''Active''))]"]
  by (simp add: matchConditions_single clause_def row_get_def)

text \<open>
  C5. A function matcher on a column: the predicate is called with the date made from the
  row's value exactly when the value is a string of two digits, a dash, two digits, a
  dash and four digits, and with the value itself otherwise; a string of the ISO form
  \<open>YYYY-MM-DD\<close> is passed as the string it is. The clause is true iff the predicate
  returns a true value for that argument, and what the predicate throws is thrown.
\<close>

theorem predicate_argument_of_function_matcher:
  assumes "\<not> reserved_key k"
  shows "matchConditions dp R (Object [(k, Function f)]) =
           (case f (predicate_argument dp (row_get R k)) of None \<Rightarrow> Inl Thrown | Some b \<Rightarrow> Inr b) \<and>
         (\<forall>v. (\<exists>t. predicate_argument dp v = DateArg t) \<longleftrightarrow> (\<exists>s. v = Str s \<and> dmy_shape s)) \<and>
         (\<forall>s. iso_shape s \<longrightarrow> predicate_argument dp (Str s) = Plain (Str s))"
proof (intro conjI allI impI)
  have "(if test_dmy v then DateArg (new_Date dp v) else Plain v) = predicate_argument dp v" for v
    by (cases v) (simp_all add: predicate_argument_def match_dmy)
  then show "matchConditions dp R (Object [(k, Function f)]) =
           (case f (predicate_argument dp (row_get R k)) of None \<Rightarrow> Inl Thrown | Some b \<Rightarrow> Inr b)"
    using assms by (simp add: matchConditions_field)
next
  fix v show "(\<exists>t. predicate_argument dp v = DateArg t) \<longleftrightarrow> (\<exists>s. v = Str s \<and> dmy_shape s)"
    by (cases v) (simp_all add: predicate_argument_def)
next
  fix s assume "iso_shape s"
  then show "predicate_argument dp (Str s) = Plain (Str s)"
    by (simp add: predicate_argument_def iso_not_dmy)
qed

text \<open>
  The ISO string \<open>1986-07-01\<close> reaches the predicate as a string; \<open>07-01-1986\<close> reaches it
  as a date (an invalid one under a parser that accepts nothing).
\<close>

theorem predicate_argument_of_function_matcher_witness:
  "matchConditions (\<lambda>s. NaN) [''dob'' \<mapsto> Str ''1986-07-01'']
     (Object [(''dob'', Function (\<lambda>x. Some (x = Plain (Str ''1986-07-01''))))]) = Inr True \<and>
   matchConditions (\<lambda>s. NaN) [''dob'' \<mapsto> Str ''07-01-1986'']
     (Object [(''dob'', Function (\<lambda>x. Some (x = DateArg NaN)))]) = Inr True"
proof -
  have k: "\<not> reserved_key ''dob''" by (simp add: reserved_key_def)
  have a: "predicate_argument dp (Str ''1986-07-01'') = Plain (Str ''1986-07-01'')" for dp
    by (simp add: predicate_argument_def dmy_shape_def)
  have b: "predicate_argument (\<lambda>s. NaN) (Str ''07-01-1986'') = DateArg NaN"
    by (simp add: predicate_argument_def dmy_shape_def is_digit_def time_clip_def)
  show ?thesis
    using predicate_argument_of_function_matcher [OF k, THEN conjunct1]
    by (simp add: a b row_get_def)
qed

text \<open>
  C6. A list matcher on a column is true iff some entry equals the row's value: a date
  entry when the date made from the row's value is the same instant, any other entry when
  it is strictly equal to the value. A date matcher is true iff the date made from the
  row's value is the same instant. So a row value \<open>s\<close> matches the list
  \<open>[new Date(s)]\<close> whenever \<open>s\<close> parses to a valid date, as \<open>"2020-01-01"\<close> does.
\<close>

theorem list_and_date_matchers:
  assumes "\<not> reserved_key k"
  shows "matchConditions dp R (Object [(k, Array L)]) =
           Inr (\<exists>v \<in> set L. entry_matches dp (row_get R k) v) \<and>
         matchConditions dp R (Object [(k, DateObj t)]) =
           Inr (same_instant (new_Date dp (row_get R k)) t) \<and>
         (\<forall>s. row_get R k = Str s \<and> new_Date dp (Str s) \<noteq> NaN \<longrightarrow>
            matchConditions dp R (Object [(k, Array [DateObj (new_Date dp (Str s))])]) = Inr True)"
proof -
  have e: "(case v of DateObj t \<Rightarrow> num_eq (new_Date dp x) t | _ \<Rightarrow> strict_eq x v)
      = entry_matches dp x v" for x v
    by (cases v) (simp_all add: entry_matches_def num_eq_new_Date)
  have a: "matchConditions dp R (Object [(k, Array L)]) =
           Inr (\<exists>v \<in> set L. entry_matches dp (row_get R k) v)" for L
    using assms by (simp add: matchConditions_field e list_ex_iff)
  have b: "matchConditions dp R (Object [(k, DateObj t)]) =
           Inr (same_instant (new_Date dp (row_get R k)) t)"
    using assms by (simp add: matchConditions_field num_eq_new_Date)
  have c: "matchConditions dp R (Object [(k, Array [DateObj (new_Date dp (Str s))])]) = Inr True"
    if "row_get R k = Str s \<and> new_Date dp (Str s) \<noteq> NaN" for s
    using that new_Date_cases [of dp "Str s"] by (auto simp add: a entry_matches_def)
  show ?thesis using a b c by blast
qed

text \<open>
  The string \<open>"2020-01-01"\<close> against \<open>[new Date("2020-01-01")]\<close>, under a parser that reads
  the string as midnight UTC of that day.
\<close>

theorem list_and_date_matchers_witness:
  "matchConditions (\<lambda>s. if s = ''2020-01-01'' then Fin 1577836800000 else NaN)
     [''d'' \<mapsto> Str ''2020-01-01''] (Object [(''d'', Array [DateObj (Fin 1577836800000)])]) = Inr True"
proof -
  let ?dp = "\<lambda>s. if s = ''2020-01-01'' then Fin 1577836800000 else NaN"
  have k: "\<not> reserved_key ''d''" by (simp add: reserved_key_def)
  have d: "new_Date ?dp (Str ''2020-01-01'') = Fin 1577836800000"
    by (simp add: time_clip_def)
  have r: "row_get [''d'' \<mapsto> Str ''2020-01-01''] ''d'' = Str ''2020-01-01''"
    by (simp add: row_get_def)
  show ?thesis
    using list_and_date_matchers [OF k, of ?dp "[''d'' \<mapsto> Str ''2020-01-01'']", THEN conjunct2, THEN conjunct2,
        THEN spec, of "''2020-01-01''"]
    unfolding d r by simp
qed

text \<open>
  C7. On a condition tree the matcher raises no error of its own: it returns, or it
  passes on what a predicate function threw, and it returns when no predicate throws. A
  matcher that is no regular expression, function, list or date is compared with the
  row's value by strict equality, whatever its type; so a number in the row never equals
  a string matcher.
\<close>

theorem matcher_raises_no_error:
  assumes "cond_tree c"
  shows "((\<exists>b. matchConditions dp R c = Inr b) \<or> matchConditions dp R c = Inl Thrown) \<and>
    (total_predicates c \<longrightarrow> (\<exists>b. matchConditions dp R c = Inr b)) \<and>
    (\<forall>k m. \<not> reserved_key k \<and> plain_matcher m \<longrightarrow>
       matchConditions dp R (Object [(k, m)]) = Inr (strict_eq (row_get R k) m)) \<and>
    (\<forall>k n s. \<not> reserved_key k \<and> row_get R k = Num n \<longrightarrow>
       matchConditions dp R (Object [(k, Prim (Str s))]) = Inr False)"
proof (intro conjI allI impI)
  show "(\<exists>b. matchConditions dp R c = Inr b) \<or> matchConditions dp R c = Inl Thrown"
    using matchConditions_no_TypeError [OF assms, of dp R]
    by (cases "matchConditions dp R c") (auto simp: throws_only_def)
next
  assume "total_predicates c"
  then show "\<exists>b. matchConditions dp R c = Inr b" using assms matchConditions_returns by blast
next
  fix k m assume "\<not> reserved_key k \<and> plain_matcher m"
  then show "matchConditions dp R (Object [(k, m)]) = Inr (strict_eq (row_get R k) m)"
    by (simp add: matchConditions_field plain_field)
next
  fix k n s assume "\<not> reserved_key k \<and> row_get R k = Num n"
  then show "matchConditions dp R (Object [(k, Prim (Str s))]) = Inr False"
    by (simp add: matchConditions_field)
qed

text \<open>
  The number 25 in the row against the string \<open>"25"\<close>, plainly and under \<open>NOT\<close>; and a
  condition whose predicate never throws.
\<close>

theorem matcher_raises_no_error_witness:
  "matchConditions (\<lambda>s. NaN) [''age'' \<mapsto> Num (Fin 25)]
     (Object [(''NOT'', Object [(''age'', Prim (Str ''25''))])]) = Inr True \<and>
   matchConditions (\<lambda>s. NaN) [''age'' \<mapsto> Num (Fin 25)]
     (Object [(''age'', Prim (Str ''25''))]) = Inr False \<and>
   (\<exists>b. matchConditions (\<lambda>s. NaN) [''age'' \<mapsto> Num (Fin 25)]
      (Object [(''AND'', Object [(''age'', Function gt18)])]) = Inr b)"
proof -
  have k: "\<not> reserved_key ''age''" by (simp add: reserved_key_def)
  have t: "cond_tree (Object [(''NOT'', Object [(''age'', Prim (Str ''25''))])])" by simp
  have r: "row_get [''age'' \<mapsto> Num (Fin 25)] ''age'' = Num (Fin 25)" by (simp add: row_get_def)
  from matcher_raises_no_error [OF t, of "\<lambda>s. NaN" "[''age'' \<mapsto> Num (Fin 25)]", THEN conjunct2, THEN conjunct2, THEN conjunct2,
      THEN spec, THEN spec, THEN spec, of "''age''" "Fin 25" "''25''"] k r
  have f: "matchConditions (\<lambda>s. NaN) [''age'' \<mapsto> Num (Fin 25)] (Object [(''age'', Prim (Str ''25''))]) = Inr False"
    by simp
  have t': "cond_tree (Object [(''AND'', Object [(''age'', Function gt18)])])" by simp
  have p: "total_predicates (Object [(''AND'', Object [(''age'', Function gt18)])])"
    by (simp add: gt18_def)
  have "\<exists>b. matchConditions (\<lambda>s. NaN) [''age'' \<mapsto> Num (Fin 25)]
      (Object [(''AND'', Object [(''age'', Function gt18)])]) = Inr b"
    by (rule matcher_raises_no_error [OF t', THEN conjunct2, THEN conjunct1, THEN mp, OF p])
  with f show ?thesis by (simp add: matchConditions_NOT)
qed

text \<open>
  A string where the data model has a condition is no condition tree, and there the \<open>in\<close>
  operator throws.
\<close>

lemma string_condition_raises:
  "matchConditions dp R (Object [(''AND'', Prim (Str ''abc''))]) = Inl TypeError"
  by (simp add: matchConditions_single clause_def matchConditions.simps [of dp R "Prim (Str ''abc'')"] own_keys_def)

text \<open>
  C8. \<open>getTable\<close> coerces a display string by this policy: a string of the form
  \<open>YYYY-MM-DD\<close> is kept as a string (a row holds no date objects at all); otherwise, if
  the trimmed string is not empty and the string parses as a number, it becomes that
  number; otherwise it is kept as a string, the empty and the blank string included. With
  distinct headers, the row that \<open>getTable\<close> builds holds under each header the coerced
  string of that column.
\<close>

theorem cell_coercion_policy:
  "coerce_cell s = coerce_policy s \<and>
   (trim s = [] \<longrightarrow> coerce_cell s = Str s) \<and>
   (\<forall>table. getTable (Some (headers # rows)) = Inr table \<and> distinct headers \<and>
      j < length rows \<and> i < length headers \<and> i < length (rows ! j) \<longrightarrow>
      row_get (table ! j) (headers ! i) = coerce_policy (rows ! j ! i))"
proof (intro conjI allI impI)
  show "coerce_cell s = coerce_policy s" by (rule coerce_cell_policy)
  show "coerce_cell s = Str s" if "trim s = []"
    using that by (simp add: coerce_cell_def)
  fix table
  assume a: "getTable (Some (headers # rows)) = Inr table \<and> distinct headers \<and>
      j < length rows \<and> i < length headers \<and> i < length (rows ! j)"
  then have "table ! j = make_row headers (rows ! j) j"
    by (auto simp: getTable_rows)
  then show "row_get (table ! j) (headers ! i) = coerce_policy (rows ! j ! i)"
    using a by (simp add: make_row_header cell_value_def coerce_cell_policy)
qed

text \<open>A date, two numbers, a name, the empty string and a blank string.\<close>

theorem cell_coercion_policy_witness:
  "coerce_cell ''1992-05-02'' = Str ''1992-05-02'' \<and> coerce_cell '' 30 '' = Num (Fin 30) \<and>
   coerce_cell ''2.5'' = Num (Fin (5 / 2)) \<and> coerce_cell ''Asha'' = Str ''Asha'' \<and>
   coerce_cell '''' = Str '''' \<and> coerce_cell ''  '' = Str ''  ''"
proof -
  have "coerce_policy ''1992-05-02'' = Str ''1992-05-02''"
    by (simp add: coerce_policy_def iso_shape_def is_digit_def)
  moreover have "coerce_policy '' 30 '' = Num (Fin 30)"
    by (simp add: coerce_policy_def iso_shape_def num_eval)
  moreover have "coerce_policy ''2.5'' = Num (Fin (5 / 2))"
    by (simp add: coerce_policy_def iso_shape_def num_eval)
  moreover have "coerce_policy ''Asha'' = Str ''Asha''"
    by (simp add: coerce_policy_def iso_shape_def num_eval)
  moreover have "coerce_policy '''' = Str ''''"
    by (simp add: coerce_policy_def iso_shape_def num_eval)
  moreover have "coerce_policy ''  '' = Str ''  ''"
    by (simp add: coerce_policy_def iso_shape_def num_eval)
  ultimately show ?thesis
    using cell_coercion_policy [THEN conjunct1] by simp
qed

text \<open>
  C9. \<open>deleteRows\<close> issues one \<open>deleteRow\<close> call for each row of the table that matches
  the condition, at the sheet position of the row (its index in the table plus 2, which
  is its \<open>rowID\<close> when no header is named \<open>rowID\<close>), in strictly descending order of
  position. The sheet is left with exactly the rows at the other positions, in their
  order. The calls are issued whenever the matcher returns on every row.
\<close>

theorem deleteRows_descending:
  "(\<forall>table. getTable (Some sh) = Inr table \<and>
      (\<forall>r \<in> set table. \<exists>b. matchConditions dp r c = Inr b) \<longrightarrow>
      (\<exists>ps. delete_calls dp (Some sh) c = Inr ps)) \<and>
   (\<forall>table ps. getTable (Some sh) = Inr table \<and> delete_calls dp (Some sh) c = Inr ps \<longrightarrow>
      ps = rev (matching_positions dp table c) \<and> sorted_wrt (>) ps \<and>
      deleteRows dp (Some sh) c = Inr (nths sh {i. Suc i \<notin> set ps})) \<and>
   (\<forall>headers rows table i. sh = headers # rows \<and> ''rowID'' \<notin> set headers \<and>
      getTable (Some sh) = Inr table \<and> i < length table \<longrightarrow>
      row_get (table ! i) ''rowID'' = Num (Fin (of_nat (i + 2))))"
proof (intro conjI allI impI)
  fix table
  assume a: "getTable (Some sh) = Inr table \<and>
      (\<forall>r \<in> set table. \<exists>b. matchConditions dp r c = Inr b)"
  then have "\<forall>ri \<in> set (zip table [0..<length table]). \<exists>b. matchConditions dp (fst ri) c = Inr b"
    by (auto dest: set_zip_leftD)
  from collect_rows_returns [OF this, of "[]"] obtain ps
    where "collect_rows dp c (zip table [0..<length table]) [] = Inr ps" ..
  then show "\<exists>ps. delete_calls dp (Some sh) c = Inr ps"
    using a by (simp add: delete_calls_def)
next
  fix table ps
  assume a: "getTable (Some sh) = Inr table \<and> delete_calls dp (Some sh) c = Inr ps"
  then obtain qs where qs: "collect_rows dp c (zip table [0..<length table]) [] = Inr qs"
    and ps: "ps = rev qs"
    by (cases "collect_rows dp c (zip table [0..<length table]) []")
      (auto simp: delete_calls_def)
  have q: "qs = matching_positions dp table c"
    using collect_rows_Inr [OF qs] unfolding collected_positions by simp
  show eq: "ps = rev (matching_positions dp table c)" using ps q by simp
  show desc: "sorted_wrt (>) ps"
    using matching_positions_ascending [of dp table c] by (simp add: eq sorted_wrt_rev)
  have "0 \<notin> set ps" by (auto simp: eq matching_positions_def)
  from fold_deleteRow [OF desc this, of sh]
  show "deleteRows dp (Some sh) c = Inr (nths sh {i. Suc i \<notin> set ps})"
    using a by (simp add: deleteRows_def)
next
  fix headers rows table i
  assume a: "sh = headers # rows \<and> ''rowID'' \<notin> set headers \<and>
      getTable (Some sh) = Inr table \<and> i < length table"
  then have "table ! i = make_row headers (rows ! i) i"
    by (auto simp: getTable_rows)
  then show "row_get (table ! i) ''rowID'' = Num (Fin (of_nat (i + 2)))"
    using a by (simp add: make_row_rowID)
qed

text \<open>
  Deleting the rows with \<open>rowID\<close> 3 and 4 from a sheet of five data rows: row 4 is deleted
  first, then row 3, and the rows that were at the positions 5 and 6 stay.
\<close>

theorem deleteRows_descending_witness:
  "delete_calls (\<lambda>s. NaN) (Some five_rows)
     (Object [(''rowID'', Array [Prim (Num (Fin 3)), Prim (Num (Fin 4))])]) = Inr [4, 3] \<and>
   deleteRows (\<lambda>s. NaN) (Some five_rows)
     (Object [(''rowID'', Array [Prim (Num (Fin 3)), Prim (Num (Fin 4))])])
     = Inr [[''name''], [''a''], [''d''], [''e'']]"
proof -
  let ?c = "Object [(''rowID'', Array [Prim (Num (Fin 3)), Prim (Num (Fin 4))])]"
  let ?dp = "\<lambda>s::string. NaN"
  have m: "matchConditions ?dp (make_row [''name''] cells idx) ?c
      = Inr (idx = 1 \<or> idx = 2)" for cells idx
  proof -
    have "map_of [(''rowID'', Array [Prim (Num (Fin 3)), Prim (Num (Fin 4))])] ''rowID''
        = Some (Array [Prim (Num (Fin 3)), Prim (Num (Fin 4))])" by simp
    from matchConditions_rowID [OF this, of ?dp] show ?thesis
      by (auto simp: rowID_result_def array_includes_def make_row_rowID)
  qed
  let ?table = "[make_row [''name''] [''a''] 0, make_row [''name''] [''b''] 1,
      make_row [''name''] [''c''] 2, make_row [''name''] [''d''] 3, make_row [''name''] [''e''] 4]"
  have t: "getTable (Some five_rows) = Inr ?table"
    by (simp add: five_rows_def getTable_def eval_nat_numeral)
  have calls: "delete_calls ?dp (Some five_rows) ?c = Inr [4, 3]"
    by (simp add: delete_calls_def t m eval_nat_numeral)
  have "deleteRows ?dp (Some five_rows) ?c = Inr (nths five_rows {i. Suc i \<notin> set [4, 3]})"
    by (rule deleteRows_descending [of five_rows ?dp ?c, THEN conjunct2, THEN conjunct1, THEN spec, THEN spec,
          of ?table "[4, 3]", THEN mp, OF conjI [OF t calls], THEN conjunct2, THEN conjunct2])
  moreover have "nths five_rows {i. Suc i \<notin> set [4, 3]} = [[''name''], [''a''], [''d''], [''e'']]"
    by (simp add: five_rows_def nths_Cons)
  ultimately show ?thesis using calls by simp
qed

text \<open>
  C10. \<open>getValuesFromTable(table, conditions, c)\<close> is the column \<open>c\<close> of the rows that
  \<open>getRowsFromTable(table, conditions)\<close> returns, \<open>undefined\<close> where a row lacks the
  column; and \<open>getRowsFromTable\<close> returns the rows of the table that match the condition,
  in the order of the table. Both throw what the matcher throws on a row, and return
  when the matcher returns on every row.
\<close>

theorem getValuesFromTable_projects:
  "getValuesFromTable dp t c col =
     (case getRowsFromTable dp t c None of
        Inl e \<Rightarrow> Inl e
      | Inr rs \<Rightarrow> Inr (map (\<lambda>r. case r col of None \<Rightarrow> Undefined | Some v \<Rightarrow> v) rs)) \<and>
   (\<forall>rs. getRowsFromTable dp t c None = Inr rs \<longrightarrow>
      rs = filter (\<lambda>r. matchConditions dp r c = Inr True) t \<and> subseq rs t) \<and>
   ((\<forall>r \<in> set t. \<exists>b. matchConditions dp r c = Inr b) \<longrightarrow>
      (\<exists>rs. getRowsFromTable dp t c None = Inr rs))"
proof (intro conjI allI impI)
  show "getValuesFromTable dp t c col =
     (case getRowsFromTable dp t c None of
        Inl e \<Rightarrow> Inl e
      | Inr rs \<Rightarrow> Inr (map (\<lambda>r. case r col of None \<Rightarrow> Undefined | Some v \<Rightarrow> v) rs))"
    by (cases "filter_rows dp c t")
      (simp_all add: getValuesFromTable_def getRowsFromTable_def select_single o_def,
       simp add: row_get_def)
next
  fix rs assume "getRowsFromTable dp t c None = Inr rs"
  then have "filter_rows dp c t = Inr rs"
    by (cases "filter_rows dp c t") (simp_all add: getRowsFromTable_def)
  from filter_rows_Inr [OF this]
  show "rs = filter (\<lambda>r. matchConditions dp r c = Inr True) t" .
  then show "subseq rs t" by simp
next
  assume "\<forall>r \<in> set t. \<exists>b. matchConditions dp r c = Inr b"
  from filter_rows_returns [OF this] obtain rs where "filter_rows dp c t = Inr rs" ..
  then show "\<exists>rs. getRowsFromTable dp t c None = Inr rs"
    by (simp add: getRowsFromTable_def)
qed

text \<open>The addresses of the active rows; the third row has no address.\<close>

theorem getValuesFromTable_projects_witness:
  "getValuesFromTable (\<lambda>s. NaN)
     [[''status'' \<mapsto> Str ''Active'', ''email'' \<mapsto> Str ''a@x''],
      [''status'' \<mapsto> Str ''Pending'', ''email'' \<mapsto> Str ''b@x''],
      [''status'' \<mapsto> Str ''Active'']]
     (Object [(''status'', Prim (Str ''Active''))]) ''email''
   = Inr [Str ''a@x'', Undefined]"
proof -
  let ?t = "[[''status'' \<mapsto> Str ''Active'', ''email'' \<mapsto> Str ''a@x''],
      [''status'' \<mapsto> Str ''Pending'', ''email'' \<mapsto> Str ''b@x''],
      [''status'' \<mapsto> Str ''Active'']]"
  let ?c = "Object [(''status'', Prim (Str ''Active''))]"
  have "getRowsFromTable (\<lambda>s. NaN) ?t ?c None
      = Inr [[''status'' \<mapsto> Str ''Active'', ''email'' \<mapsto> Str ''a@x''], [''status'' \<mapsto> Str ''Active'']]"
    by (simp add: getRowsFromTable_def field_single row_get_def)
  then show ?thesis
    using getValuesFromTable_projects [of "\<lambda>s. NaN" ?t ?c "''email''", THEN conjunct1]
    by simp
qed

end
